theory Spec2Isabelle
  imports Complex_Main
begin

section \<open>Monte Carlo demand simulation with a linear congruential generator\<close>

text \<open>
  A shallow embedding of \<^verbatim>\<open>sm_lcg.py\<close>. Python integers are \<open>int\<close>. Python floats
  are modelled by the rationals they denote, with exact arithmetic: IEEE-754 rounding,
  overflow and NaN are outside the model. Exceptions are values of \<open>py_error\<close>; the
  messages the script shows (\<^verbatim>\<open>st.error\<close>, \<^verbatim>\<open>st.warning\<close>) are values of \<open>message\<close>.
\<close>

datatype py_error = ZeroDivisionError | IndexError

subsection \<open>The generator\<close>

text \<open>
  \<^verbatim>\<open>
  def generate_lcg(seed, a, c, m, n):
      numbers = []
      X = seed
      for _ in range(n):
          X = (a * X + c) % m
          numbers.append(X)
      return numbers
  \<close>
  \<open>lcg_loop\<close> is the \<^verbatim>\<open>for\<close> loop with the iterations left, the state \<open>X\<close> and the
  list built so far. \<^verbatim>\<open>range(n)\<close> is empty for \<open>n \<le> 0\<close>; \<^verbatim>\<open>%\<close> raises on a zero
  modulus and otherwise agrees with \<open>mod\<close> on \<open>int\<close> (the sign of the divisor).
\<close>

fun lcg_loop :: "int \<Rightarrow> int \<Rightarrow> int \<Rightarrow> nat \<Rightarrow> int \<Rightarrow> int list \<Rightarrow> py_error + int list" where
  "lcg_loop a c m 0 X numbers = Inr numbers"
| "lcg_loop a c m (Suc k) X numbers =
     (if m = 0 then Inl ZeroDivisionError
      else lcg_loop a c m k ((a * X + c) mod m) (numbers @ [(a * X + c) mod m]))"

definition generate_lcg :: "int \<Rightarrow> int \<Rightarrow> int \<Rightarrow> int \<Rightarrow> int \<Rightarrow> py_error + int list" where
  "generate_lcg seed a c m n = lcg_loop a c m (nat n) seed []"

text \<open>The recurrence as the specification words it: \<open>X[0] = seed\<close>,
  \<open>X[k] = (multiplier * X[k-1] + increment) mod modulus\<close>.\<close>

fun lcg_X :: "int \<Rightarrow> int \<Rightarrow> int \<Rightarrow> int \<Rightarrow> nat \<Rightarrow> int" where
  "lcg_X seed a c m 0 = seed"
| "lcg_X seed a c m (Suc k) = (a * lcg_X seed a c m k + c) mod m"

subsection \<open>The demand mapper\<close>

text \<open>
  \<^verbatim>\<open>
  def map_to_demand(u, demands, cum_probs):
      for i, cp in enumerate(cum_probs):
          if u <= cp:
              return demands[i]
      return demands[-1]
  \<close>
  \<open>map_to_demand_loop\<close> is the loop at index \<open>i\<close> over the rest of \<open>cum_probs\<close>.
  \<^verbatim>\<open>demands[i]\<close> raises IndexError when \<open>i\<close> is not below the length, and
  \<^verbatim>\<open>demands[-1]\<close> raises it on the empty list. Only the comparison \<open>u \<le> cp\<close> is used,
  so the model is polymorphic in the ordered type.
\<close>

fun map_to_demand_loop :: "'u::ord \<Rightarrow> 'd list \<Rightarrow> nat \<Rightarrow> 'u list \<Rightarrow> py_error + 'd" where
  "map_to_demand_loop u demands i [] =
     (if demands = [] then Inl IndexError else Inr (last demands))"
| "map_to_demand_loop u demands i (cp # cps) =
     (if u \<le> cp
      then (if i < length demands then Inr (demands ! i) else Inl IndexError)
      else map_to_demand_loop u demands (Suc i) cps)"

definition map_to_demand :: "'u::ord \<Rightarrow> 'd list \<Rightarrow> 'u list \<Rightarrow> py_error + 'd" where
  "map_to_demand u demands cum_probs = map_to_demand_loop u demands 0 cum_probs"

subsection \<open>Normalising the probabilities\<close>

text \<open>
  \<^verbatim>\<open>sum(xs)\<close> starts at 0 and adds the items from left to right.
\<close>

definition py_sum :: "'a::monoid_add list \<Rightarrow> 'a" where
  "py_sum xs = foldl (+) 0 xs"

text \<open>
  \<^verbatim>\<open>
  prob_sum = sum(probabilities)
  if prob_sum == 0:
      st.error("Probabilities cannot all be zero.")
  else:
      if abs(prob_sum - 1.0) > 1e-6:
          st.warning(f"Probabilities sum to {prob_sum:.2f}. Normalizing automatically.")
          probabilities = [p / prob_sum for p in probabilities]
  \<close>
  The result is the messages shown and the value of \<^verbatim>\<open>probabilities\<close> afterwards. The
  script goes on after either message.
\<close>

datatype message = Error_probabilities_all_zero | Warning_normalizing rat

definition normalize_probabilities :: "rat list \<Rightarrow> message list \<times> rat list" where
  "normalize_probabilities raw_probabilities =
     (let prob_sum = py_sum raw_probabilities in
      if prob_sum = 0 then ([Error_probabilities_all_zero], raw_probabilities)
      else if \<bar>prob_sum - 1\<bar> > 1 / 10 ^ 6
      then ([Warning_normalizing prob_sum], map (\<lambda>p. p / prob_sum) raw_probabilities)
      else ([], raw_probabilities))"

subsection \<open>The cumulative table\<close>

text \<open>
  \<^verbatim>\<open>round(x, ndigits)\<close> rounds to the nearest multiple of \<open>10^-ndigits\<close>, an exact tie
  to the even one.
\<close>

definition round_half_even :: "rat \<Rightarrow> int" where
  "round_half_even x =
     (let f = \<lfloor>x\<rfloor>; d = x - of_int f in
      if d < 1 / 2 then f
      else if 1 / 2 < d then f + 1
      else if even f then f else f + 1)"

definition py_round :: "rat \<Rightarrow> nat \<Rightarrow> rat" where
  "py_round x ndigits = of_int (round_half_even (x * 10 ^ ndigits)) / 10 ^ ndigits"

text \<open>
  \<^verbatim>\<open>
  cum_probs, cum_sum = [], 0
  for p in probabilities:
      cum_sum += p
      cum_probs.append(round(cum_sum, 4))
  \<close>
\<close>

fun cum_probs_loop :: "rat list \<Rightarrow> rat \<Rightarrow> rat list \<Rightarrow> rat list" where
  "cum_probs_loop [] cum_sum cum_probs = cum_probs"
| "cum_probs_loop (p # ps) cum_sum cum_probs =
     cum_probs_loop ps (cum_sum + p) (cum_probs @ [py_round (cum_sum + p) 4])"

definition build_cum_probs :: "rat list \<Rightarrow> rat list" where
  "build_cum_probs probabilities = cum_probs_loop probabilities 0 []"

subsection \<open>The simulation run and its statistics\<close>

text \<open>
  \<^verbatim>\<open>x / y\<close> on integers is true division and raises on a zero divisor. A list
  comprehension whose element expression raises, raises at the first such element.
\<close>

definition true_div :: "int \<Rightarrow> int \<Rightarrow> py_error + rat" where
  "true_div x y = (if y = 0 then Inl ZeroDivisionError else Inr (of_int x / of_int y))"

fun comprehension :: "('a \<Rightarrow> py_error + 'b) \<Rightarrow> 'a list \<Rightarrow> py_error + 'b list" where
  "comprehension f [] = Inr []"
| "comprehension f (x # xs) =
     (case f x of
        Inl e \<Rightarrow> Inl e
      | Inr y \<Rightarrow> (case comprehension f xs of Inl e \<Rightarrow> Inl e | Inr ys \<Rightarrow> Inr (y # ys)))"

text \<open>
  \<^verbatim>\<open>
  if n_days >= 6:
      avg_6 = sum(demands_generated[:6]) / 6
  avg_n = sum(demands_generated) / n_days
  if n_days >= 5:
      ... demands_generated[4] ...
  \<close>
  The three values shown: the six-day average and the fifth day's demand only under
  their guards.
\<close>

definition statistics :: "int \<Rightarrow> int list \<Rightarrow> py_error + (rat option \<times> rat \<times> int option)" where
  "statistics n_days demands_generated =
     (let avg_6 = (if 6 \<le> n_days then Some (of_int (py_sum (take 6 demands_generated)) / 6)
                   else None)
      in case true_div (py_sum demands_generated) n_days of
           Inl e \<Rightarrow> Inl e
         | Inr avg_n \<Rightarrow>
             if 5 \<le> n_days
             then (if 4 < length demands_generated
                   then Inr (avg_6, avg_n, Some (demands_generated ! 4))
                   else Inl IndexError)
             else Inr (avg_6, avg_n, None))"

text \<open>
  What one execution of the script leaves: the messages shown, the final value of each
  variable of the run, and the statistics.
\<close>

record simulation =
  messages :: "message list"
  probabilities :: "rat list"
  cum_probs :: "rat list"
  X_values :: "int list"
  U_values :: "rat list"
  demands_generated :: "int list"
  avg_6 :: "rat option"
  avg_n :: rat
  day_5 :: "int option"

text \<open>
  The script from the normalisation on, as a function of the widgets' values:
  \<^verbatim>\<open>
  X_values = generate_lcg(X0, a, c, m, n_days)
  U_values = [x / m for x in X_values]
  demands_generated = [map_to_demand(u, demand_values, cum_probs) for u in U_values]
  \<close>
  followed by the statistics. An exception ends the script, and the result is then the
  error alone. The tables and the chart (pandas and streamlit calls) are presentation and
  are left out; \<^verbatim>\<open>demand_values\<close> and \<^verbatim>\<open>probabilities\<close> are read from the same number
  \<^verbatim>\<open>num_demands\<close> of widgets, so the properties of the script below are stated for lists
  of equal length. The demand widgets start from integer defaults and return integers.
\<close>

definition script ::
  "int \<Rightarrow> int \<Rightarrow> int \<Rightarrow> int \<Rightarrow> int \<Rightarrow> int list \<Rightarrow> rat list \<Rightarrow> py_error + simulation" where
  "script a c m X0 n_days demand_values raw_probabilities =
     (case normalize_probabilities raw_probabilities of (msgs, probs) \<Rightarrow>
      case generate_lcg X0 a c m n_days of
        Inl e \<Rightarrow> Inl e
      | Inr xs \<Rightarrow>
      case comprehension (\<lambda>x. true_div x m) xs of
        Inl e \<Rightarrow> Inl e
      | Inr us \<Rightarrow>
      case comprehension (\<lambda>u. map_to_demand u demand_values (build_cum_probs probs)) us of
        Inl e \<Rightarrow> Inl e
      | Inr ds \<Rightarrow>
      case statistics n_days ds of
        Inl e \<Rightarrow> Inl e
      | Inr (a6, an, d5) \<Rightarrow>
          Inr \<lparr>messages = msgs, probabilities = probs, cum_probs = build_cum_probs probs,
               X_values = xs, U_values = us, demands_generated = ds,
               avg_6 = a6, avg_n = an, day_5 = d5\<rparr>)"

text \<open>The arithmetic mean as the specification words it (for the statistics of the run).\<close>

definition arithmetic_mean :: "int list \<Rightarrow> rat" where
  "arithmetic_mean xs = of_int (sum_list xs) / of_nat (length xs)"

section \<open>Properties\<close>

subsection \<open>The generator computes the recurrence\<close>

lemma lcg_loop_recurrence:
  "m \<noteq> 0 \<Longrightarrow>
   lcg_loop a c m k (lcg_X seed a c m j) numbers =
     Inr (numbers @ map (lcg_X seed a c m) [Suc j ..< Suc (j + k)])"
proof (induction k arbitrary: j numbers)
  case 0
  then show ?case by simp
next
  case (Suc k)
  have step: "(a * lcg_X seed a c m j + c) mod m = lcg_X seed a c m (Suc j)"
    by simp
  have "lcg_loop a c m (Suc k) (lcg_X seed a c m j) numbers =
        lcg_loop a c m k (lcg_X seed a c m (Suc j)) (numbers @ [lcg_X seed a c m (Suc j)])"
    using Suc.prems by (simp only: lcg_loop.simps step if_False)
  also have "\<dots> = Inr ((numbers @ [lcg_X seed a c m (Suc j)]) @
                     map (lcg_X seed a c m) [Suc (Suc j) ..< Suc (Suc j + k)])"
    using Suc.IH [OF Suc.prems] by blast
  also have "[Suc j ..< Suc (j + Suc k)] = Suc j # [Suc (Suc j) ..< Suc (Suc j + k)]"
    by (simp add: upt_conv_Cons)
  then have "(numbers @ [lcg_X seed a c m (Suc j)]) @
               map (lcg_X seed a c m) [Suc (Suc j) ..< Suc (Suc j + k)] =
             numbers @ map (lcg_X seed a c m) [Suc j ..< Suc (j + Suc k)]"
    by simp
  finally show ?case .
qed

lemma generate_lcg_recurrence:
  "m \<noteq> 0 \<Longrightarrow> generate_lcg seed a c m n = Inr (map (lcg_X seed a c m) [1 ..< Suc (nat n)])"
  using lcg_loop_recurrence [of m a c "nat n" seed 0 "[]"]
  by (simp add: generate_lcg_def)

text \<open>
  C1. For seed \<open>\<ge> 0\<close>, multiplier \<open>\<ge> 1\<close>, increment \<open>\<ge> 0\<close>, modulus \<open>\<ge> 2\<close> and count
  \<open>n \<ge> 0\<close> the generator returns exactly \<open>X[1], \<dots>, X[n]\<close> of the recurrence started at
  \<open>X[0] = seed\<close>: the seed is not emitted, the first element is \<open>X[1]\<close>. For seed 35,
  a = 13, c = 7, m = 100, n = 3 the output is \<open>[62, 13, 76]\<close>.
\<close>

theorem C1_generate_lcg_recurrence:
  assumes "0 \<le> seed" and "1 \<le> a" and "0 \<le> c" and "2 \<le> m" and "0 \<le> n"
  shows "generate_lcg seed a c m n = Inr (map (lcg_X seed a c m) [1 ..< Suc (nat n)])
       \<and> generate_lcg 35 13 7 100 3 = Inr [62, 13, 76]"
proof -
  from assms have "m \<noteq> 0" by simp
  then have general: "generate_lcg seed a c m n = Inr (map (lcg_X seed a c m) [1 ..< Suc (nat n)])"
    by (rule generate_lcg_recurrence)
  have "generate_lcg 35 13 7 100 3 = Inr [62, 13, 76]"
    by (simp add: generate_lcg_def eval_nat_numeral)
  with general show ?thesis by simp
qed

theorem C1_generate_lcg_recurrence_witness:
  "(0::int) \<le> 35 \<and> (1::int) \<le> 13 \<and> (0::int) \<le> 7 \<and> (2::int) \<le> 100 \<and> (0::int) \<le> 3
   \<and> generate_lcg 35 13 7 100 3 = Inr (map (lcg_X 35 13 7 100) [1 ..< Suc (nat 3)])
   \<and> map (lcg_X 35 13 7 100) [1 ..< Suc (nat 3)] = [62, 13, 76]"
proof -
  have idx: "[1 ..< Suc (nat 3)] = [Suc 0, Suc (Suc 0), Suc (Suc (Suc 0))]"
    by (simp add: upt_conv_Cons eval_nat_numeral)
  have "map (lcg_X 35 13 7 100) [1 ..< Suc (nat 3)] = [62, 13, 76]"
    unfolding idx by simp
  then show ?thesis
    using C1_generate_lcg_recurrence [of 35 13 7 100 3] by simp
qed

lemma lcg_loop_length:
  "lcg_loop a c m k X numbers = Inr xs \<Longrightarrow> length xs = length numbers + k"
  by (induction k arbitrary: X numbers) (auto split: if_splits)

lemma generate_lcg_length: "generate_lcg seed a c m n = Inr xs \<Longrightarrow> length xs = nat n"
  using lcg_loop_length [of a c m "nat n" seed "[]" xs] by (simp add: generate_lcg_def)

subsection \<open>What the generator does with a modulus below 2 or a count below 1\<close>

text \<open>
  C5 (as the claim states it, refuted). The generator rejects nothing: with modulus 1 and count 3 it
  returns three zeros.
\<close>

theorem C5_modulus_one_accepted: "generate_lcg 35 13 7 1 3 = Inr [0, 0, 0]"
  by (simp add: generate_lcg_def eval_nat_numeral)

text \<open>
  C5 (amended). \<open>generate_lcg\<close> validates nothing and knows no InvalidParams error: a count
  below 1 gives the empty sequence; a count of at least 1 with modulus 0 fails with
  ZeroDivisionError at the first step, so that no sequence is produced; a count of at
  least 1 with any other modulus (1 and the negative ones too) gives a sequence of
  \<open>n\<close> values.
\<close>

theorem C5_generate_lcg_invalid_params:
  "(n < 1 \<longrightarrow> generate_lcg seed a c m n = Inr [])
 \<and> (1 \<le> n \<and> m = 0 \<longrightarrow> generate_lcg seed a c m n = Inl ZeroDivisionError)
 \<and> (1 \<le> n \<and> m \<noteq> 0 \<longrightarrow> (\<exists>xs. generate_lcg seed a c m n = Inr xs \<and> length xs = nat n))"
proof (intro conjI impI)
  assume "n < 1"
  then have "nat n = 0" by simp
  then show "generate_lcg seed a c m n = Inr []" by (simp add: generate_lcg_def)
next
  assume "1 \<le> n \<and> m = 0"
  then obtain k where "nat n = Suc k" "m = 0" by (cases "nat n") auto
  then show "generate_lcg seed a c m n = Inl ZeroDivisionError" by (simp add: generate_lcg_def)
next
  assume "1 \<le> n \<and> m \<noteq> 0"
  then show "\<exists>xs. generate_lcg seed a c m n = Inr xs \<and> length xs = nat n"
    by (simp add: generate_lcg_recurrence del: upt_Suc)
qed

theorem C5_generate_lcg_invalid_params_witness:
  "(0::int) < 1 \<and> generate_lcg 35 13 7 100 0 = Inr []
 \<and> (1::int) \<le> 3 \<and> generate_lcg 35 13 7 0 3 = Inl ZeroDivisionError
 \<and> (1::int) \<noteq> 0 \<and> (\<exists>xs. generate_lcg 35 13 7 1 3 = Inr xs \<and> length xs = nat 3)"
  using C5_generate_lcg_invalid_params [of 0 35 13 7 100]
    C5_generate_lcg_invalid_params [of 3 35 13 7 0]
    C5_generate_lcg_invalid_params [of 3 35 13 7 1]
  by simp

subsection \<open>The range of the generated values and of the uniforms\<close>

lemma comprehension_Inr_iff:
  "comprehension f xs = Inr ys \<longleftrightarrow> list_all2 (\<lambda>x y. f x = Inr y) xs ys"
proof (induction xs arbitrary: ys)
  case Nil
  then show ?case by auto
next
  case (Cons x xs)
  show ?case
    by (cases ys) (auto simp: Cons.IH [symmetric] split: sum.splits)
qed

lemma comprehension_length: "comprehension f xs = Inr ys \<Longrightarrow> length ys = length xs"
  by (simp add: comprehension_Inr_iff list_all2_lengthD)

lemma comprehension_total:
  "(\<And>x. x \<in> set xs \<Longrightarrow> f x = Inr (g x)) \<Longrightarrow> comprehension f xs = Inr (map g xs)"
  by (induction xs) simp_all

lemma comprehension_returns:
  "(\<And>x. x \<in> set xs \<Longrightarrow> \<exists>y. f x = Inr y) \<Longrightarrow> \<exists>ys. comprehension f xs = Inr ys"
proof (induction xs)
  case Nil
  then show ?case by simp
next
  case (Cons x xs)
  then obtain y ys where "f x = Inr y" "comprehension f xs = Inr ys"
    by (metis list.set_intros)
  then show ?case by simp
qed



subsection \<open>The demand mapper\<close>

lemma map_to_demand_loop_first:
  "i < length cps \<Longrightarrow> u \<le> cps ! i \<Longrightarrow> (\<forall>j<i. \<not> u \<le> cps ! j) \<Longrightarrow>
   map_to_demand_loop u demands k cps =
     (if k + i < length demands then Inr (demands ! (k + i)) else Inl IndexError)"
proof (induction cps arbitrary: i k)
  case Nil
  then show ?case by simp
next
  case (Cons cp cps)
  show ?case
  proof (cases i)
    case 0
    with Cons.prems show ?thesis by simp
  next
    case (Suc i')
    from Cons.prems Suc have not_head: "\<not> u \<le> cp" by auto
    from Cons.prems Suc have "i' < length cps" "u \<le> cps ! i'" "\<forall>j<i'. \<not> u \<le> cps ! j"
      by auto
    from Cons.IH [OF this, of "Suc k"] not_head Suc show ?thesis by simp
  qed
qed

lemma map_to_demand_loop_none:
  "(\<forall>i<length cps. \<not> u \<le> cps ! i) \<Longrightarrow>
   map_to_demand_loop u demands k cps =
     (if demands = [] then Inl IndexError else Inr (last demands))"
proof (induction cps arbitrary: k)
  case Nil
  then show ?case by simp
next
  case (Cons cp cps)
  from Cons.prems have not_head: "\<not> u \<le> cp" by auto
  from Cons.prems have "\<forall>i<length cps. \<not> u \<le> cps ! i" by auto
  from Cons.IH [OF this, of "Suc k"] not_head show ?case by simp
qed

lemma map_to_demand_loop_total:
  "demands \<noteq> [] \<Longrightarrow> k + length cps \<le> length demands \<Longrightarrow>
   \<exists>d. map_to_demand_loop u demands k cps = Inr d \<and> d \<in> set demands"
proof (induction cps arbitrary: k)
  case Nil
  then show ?case by simp
next
  case (Cons cp cps)
  from Cons.prems have "k < length demands" "Suc k + length cps \<le> length demands" by auto
  with Cons.IH [OF Cons.prems(1), of "Suc k"] show ?case by auto
qed

text \<open>
  C3 (as the claim states it, refuted). The empty cumulative table and the empty demand
  list have the same length; no index qualifies, and there is no last demand value to
  return: the mapper raises IndexError.
\<close>

theorem C3_empty_tables_raise:
  "map_to_demand (1 / 2 :: rat) ([] :: int list) [] = Inl IndexError"
  by (simp add: map_to_demand_def)

text \<open>
  C3 (amended). For every value \<open>u\<close>, cumulative table and non-empty demand list of the
  same length, the mapper returns the demand at the first index \<open>i\<close> with
  \<open>u \<le> cumulative[i]\<close>, and the last demand when there is no such index. For demands
  \<open>[0, 10, 20]\<close> and cumulative \<open>[0.2, 0.7, 1.0]\<close>, \<open>u = 0.2\<close> gives 0 and \<open>u = 0.71\<close>
  gives 20.
\<close>

theorem C3_map_to_demand_first_index:
  fixes u :: "'u::ord" and cum :: "'u list" and demands :: "'d list"
  assumes "length cum = length demands" and "demands \<noteq> []"
  shows "(\<forall>i<length cum. u \<le> cum ! i \<longrightarrow> (\<forall>j<i. \<not> u \<le> cum ! j) \<longrightarrow>
            map_to_demand u demands cum = Inr (demands ! i))
       \<and> ((\<forall>i<length cum. \<not> u \<le> cum ! i) \<longrightarrow>
            map_to_demand u demands cum = Inr (last demands))
       \<and> map_to_demand (2 / 10 :: rat) [0, 10, 20 :: int] [2 / 10, 7 / 10, 1] = Inr 0
       \<and> map_to_demand (71 / 100 :: rat) [0, 10, 20 :: int] [2 / 10, 7 / 10, 1] = Inr 20"
proof (intro conjI allI impI)
  fix i assume "i < length cum" "u \<le> cum ! i" "\<forall>j<i. \<not> u \<le> cum ! j"
  from map_to_demand_loop_first [OF this, of demands 0] \<open>i < length cum\<close> assms(1)
  show "map_to_demand u demands cum = Inr (demands ! i)"
    by (simp add: map_to_demand_def)
next
  assume "\<forall>i<length cum. \<not> u \<le> cum ! i"
  from map_to_demand_loop_none [OF this, of demands 0] assms(2)
  show "map_to_demand u demands cum = Inr (last demands)"
    by (simp add: map_to_demand_def)
next
  show "map_to_demand (2 / 10 :: rat) [0, 10, 20 :: int] [2 / 10, 7 / 10, 1] = Inr 0"
    by (simp add: map_to_demand_def)
next
  show "map_to_demand (71 / 100 :: rat) [0, 10, 20 :: int] [2 / 10, 7 / 10, 1] = Inr 20"
    by (simp add: map_to_demand_def)
qed

theorem C3_map_to_demand_first_index_witness:
  "length [2 / 10, 7 / 10, 1 :: rat] = length [0, 10, 20 :: int]
 \<and> [0, 10, 20 :: int] \<noteq> []
 \<and> (1 :: nat) < length [2 / 10, 7 / 10, 1 :: rat]
 \<and> (1 / 2 :: rat) \<le> [2 / 10, 7 / 10, 1] ! 1
 \<and> \<not> (1 / 2 :: rat) \<le> [2 / 10, 7 / 10, 1] ! 0
 \<and> map_to_demand (1 / 2 :: rat) [0, 10, 20 :: int] [2 / 10, 7 / 10, 1] = Inr ([0, 10, 20] ! 1)
 \<and> \<not> (2 :: rat) \<le> 2 / 10 \<and> \<not> (2 :: rat) \<le> 7 / 10 \<and> \<not> (2 :: rat) \<le> 1
 \<and> map_to_demand (2 :: rat) [0, 10, 20 :: int] [2 / 10, 7 / 10, 1] = Inr (last [0, 10, 20])"
proof -
  let ?cum = "[2 / 10, 7 / 10, 1 :: rat]" and ?demands = "[0, 10, 20 :: int]"
  have same: "length ?cum = length ?demands" and ne: "?demands \<noteq> []" by simp_all
  have first: "\<forall>j<1. \<not> (1 / 2 :: rat) \<le> ?cum ! j" by simp
  have none: "\<forall>i<length ?cum. \<not> (2 :: rat) \<le> ?cum ! i"
    by (simp add: less_Suc_eq nth_Cons')
  have idx: "1 < length ?cum" and le: "(1 / 2 :: rat) \<le> ?cum ! 1" by simp_all
  from C3_map_to_demand_first_index [OF same ne, of "1 / 2"]
  have "\<forall>i<length ?cum. (1 / 2 :: rat) \<le> ?cum ! i \<longrightarrow> (\<forall>j<i. \<not> (1 / 2 :: rat) \<le> ?cum ! j) \<longrightarrow>
          map_to_demand (1 / 2 :: rat) ?demands ?cum = Inr (?demands ! i)"
    by (rule conjunct1)
  with idx le first
  have "map_to_demand (1 / 2 :: rat) ?demands ?cum = Inr (?demands ! 1)"
    by blast
  moreover from C3_map_to_demand_first_index [OF same ne, of 2] none
  have "map_to_demand (2 :: rat) ?demands ?cum = Inr (last ?demands)"
    by blast
  ultimately show ?thesis by simp
qed

text \<open>
  C10. For every value \<open>u\<close> and every non-empty demand list at least as long as the
  cumulative table, the mapper returns (it never raises), what it returns is an element
  of the demand list, and it is the last one when \<open>u\<close> exceeds every threshold. When the
  first qualifying index is not an index of the demand list (possible only for a longer
  cumulative table) the mapper raises IndexError, as for \<open>u = 0.5\<close>, demands \<open>[7]\<close> and
  cumulative \<open>[0.2, 0.9]\<close>.
\<close>

theorem C10_map_to_demand_total:
  fixes u :: "'u::ord" and cum :: "'u list" and demands :: "'d list"
  shows "(demands \<noteq> [] \<and> length cum \<le> length demands \<longrightarrow>
            (\<exists>d. map_to_demand u demands cum = Inr d \<and> d \<in> set demands)
          \<and> ((\<forall>i<length cum. \<not> u \<le> cum ! i) \<longrightarrow>
               map_to_demand u demands cum = Inr (last demands)))
       \<and> (\<forall>i<length cum. length demands \<le> i \<longrightarrow> u \<le> cum ! i \<longrightarrow> (\<forall>j<i. \<not> u \<le> cum ! j) \<longrightarrow>
            map_to_demand u demands cum = Inl IndexError)
       \<and> length [1 / 5, 9 / 10 :: rat] > length [7 :: int]
       \<and> map_to_demand (1 / 2 :: rat) [7 :: int] [1 / 5, 9 / 10] = Inl IndexError"
proof (intro conjI allI impI)
  assume "demands \<noteq> [] \<and> length cum \<le> length demands"
  then show "\<exists>d. map_to_demand u demands cum = Inr d \<and> d \<in> set demands"
    using map_to_demand_loop_total [of demands 0 cum u] by (simp add: map_to_demand_def)
next
  assume "demands \<noteq> [] \<and> length cum \<le> length demands" "\<forall>i<length cum. \<not> u \<le> cum ! i"
  then show "map_to_demand u demands cum = Inr (last demands)"
    using map_to_demand_loop_none [of cum u demands 0] by (simp add: map_to_demand_def)
next
  fix i assume "i < length cum" "length demands \<le> i" "u \<le> cum ! i" "\<forall>j<i. \<not> u \<le> cum ! j"
  from map_to_demand_loop_first [OF this(1,3,4), of demands 0] this(2)
  show "map_to_demand u demands cum = Inl IndexError"
    by (simp add: map_to_demand_def)
next
  show "length [1 / 5, 9 / 10 :: rat] > length [7 :: int]" by simp
next
  show "map_to_demand (1 / 2 :: rat) [7 :: int] [1 / 5, 9 / 10] = Inl IndexError"
    by (simp add: map_to_demand_def)
qed

theorem C10_map_to_demand_total_witness:
  "[7, 8, 9 :: int] \<noteq> [] \<and> length [1 / 5, 9 / 10 :: rat] \<le> length [7, 8, 9 :: int]
 \<and> (\<exists>d. map_to_demand (- 3 :: rat) [7, 8, 9 :: int] [1 / 5, 9 / 10] = Inr d \<and> d \<in> set [7, 8, 9])
 \<and> \<not> (5 :: rat) \<le> 1 / 5 \<and> \<not> (5 :: rat) \<le> 9 / 10
 \<and> map_to_demand (5 :: rat) [7, 8, 9 :: int] [1 / 5, 9 / 10] = Inr (last [7, 8, 9])
 \<and> (1 :: nat) < length [1 / 5, 9 / 10 :: rat] \<and> length [7 :: int] \<le> 1
 \<and> (1 / 2 :: rat) \<le> [1 / 5, 9 / 10] ! 1 \<and> \<not> (1 / 2 :: rat) \<le> [1 / 5, 9 / 10] ! 0
 \<and> map_to_demand (1 / 2 :: rat) [7 :: int] [1 / 5, 9 / 10] = Inl IndexError"
proof -
  let ?cum = "[1 / 5, 9 / 10 :: rat]"
  have none: "\<forall>i<length ?cum. \<not> (5 :: rat) \<le> ?cum ! i"
    by (simp add: less_Suc_eq nth_Cons')
  from C10_map_to_demand_total [of "[7, 8, 9 :: int]" ?cum "- 3"]
  have total: "\<exists>d. map_to_demand (- 3 :: rat) [7, 8, 9 :: int] ?cum = Inr d \<and> d \<in> set [7, 8, 9]"
    by simp
  from C10_map_to_demand_total [of "[7, 8, 9 :: int]" ?cum 5] none
  have fallback: "map_to_demand (5 :: rat) [7, 8, 9 :: int] ?cum = Inr (last [7, 8, 9])"
    by simp
  from total fallback show ?thesis by (simp add: map_to_demand_def)
qed

subsection \<open>The normaliser\<close>

lemma foldl_add_sum_list: "foldl (+) s xs = s + sum_list (xs :: 'a::monoid_add list)"
  by (induction xs arbitrary: s) (simp_all add: add.assoc)

lemma py_sum_sum_list: "py_sum xs = sum_list xs"
  by (simp add: py_sum_def foldl_add_sum_list)




subsection \<open>The cumulative table\<close>

lemma cum_probs_loop_prefix_sums:
  "cum_probs_loop ps s acc =
     acc @ map (\<lambda>i. py_round (s + sum_list (take (Suc i) ps)) 4) [0 ..< length ps]"
proof (induction ps arbitrary: s acc)
  case Nil
  then show ?case by simp
next
  case (Cons p ps)
  have "[0 ..< length (p # ps)] = 0 # map Suc [0 ..< length ps]"
    by (simp add: upt_conv_Cons map_Suc_upt del: upt_Suc)
  then show ?case
    by (simp add: Cons.IH add.assoc comp_def del: upt_Suc)
qed

lemma build_cum_probs_prefix_sums:
  "build_cum_probs ps = map (\<lambda>i. py_round (sum_list (take (Suc i) ps)) 4) [0 ..< length ps]"
  by (simp add: build_cum_probs_def cum_probs_loop_prefix_sums del: upt_Suc)

lemma length_build_cum_probs: "length (build_cum_probs ps) = length ps"
  by (simp add: build_cum_probs_prefix_sums del: upt_Suc)

lemma nth_build_cum_probs:
  "i < length ps \<Longrightarrow> build_cum_probs ps ! i = py_round (sum_list (take (Suc i) ps)) 4"
  by (simp add: build_cum_probs_prefix_sums del: upt_Suc)

lemma round_half_even_bounds: "\<lfloor>x\<rfloor> \<le> round_half_even x \<and> round_half_even x \<le> \<lfloor>x\<rfloor> + 1"
  by (simp add: round_half_even_def Let_def)

lemma round_half_even_mono:
  assumes "x \<le> y"
  shows "round_half_even x \<le> round_half_even y"
proof (cases "\<lfloor>x\<rfloor> = \<lfloor>y\<rfloor>")
  case True
  with assms show ?thesis
    by (auto simp: round_half_even_def Let_def)
next
  case False
  with assms have "\<lfloor>x\<rfloor> < \<lfloor>y\<rfloor>"
    using floor_mono [of x y] by linarith
  then have "round_half_even x \<le> \<lfloor>y\<rfloor>"
    using round_half_even_bounds [of x] by linarith
  then show ?thesis
    using round_half_even_bounds [of y] by linarith
qed

lemma py_round_mono: "x \<le> y \<Longrightarrow> py_round x n \<le> py_round y n"
  by (simp add: py_round_def round_half_even_mono divide_right_mono mult_right_mono)

lemma round_half_even_near:
  assumes "\<bar>x - of_int n\<bar> < 1 / 2"
  shows "round_half_even x = n"
proof (cases "of_int n \<le> x")
  case True
  with assms have "\<lfloor>x\<rfloor> = n" by (intro floor_unique) auto
  with assms True show ?thesis by (auto simp: round_half_even_def Let_def)
next
  case False
  with assms have fl: "\<lfloor>x\<rfloor> = n - 1" by (intro floor_unique) auto
  from assms False have "1 / 2 < x - of_int (n - 1)" by auto
  with fl show ?thesis by (auto simp: round_half_even_def Let_def)
qed

lemma py_round_near_one:
  assumes "\<bar>s - 1\<bar> \<le> 1 / 10 ^ 6"
  shows "py_round s 4 = 1"
proof -
  have scaled: "s * 10 ^ 4 - of_int 10000 = (s - 1) * 10 ^ 4"
    by (simp add: algebra_simps)
  have "\<bar>s * 10 ^ 4 - of_int 10000\<bar> = \<bar>s - 1\<bar> * \<bar>10 ^ 4\<bar>"
    unfolding scaled by (rule abs_mult)
  also have "\<dots> = \<bar>s - 1\<bar> * 10 ^ 4"
    by simp
  also have "\<dots> \<le> 1 / 10 ^ 6 * 10 ^ 4"
    using assms by (intro mult_right_mono) auto
  also have "\<dots> < 1 / 2" by simp
  finally have "round_half_even (s * 10 ^ 4) = 10000"
    by (rule round_half_even_near)
  then show ?thesis by (simp add: py_round_def)
qed

lemma sum_list_take_mono:
  assumes "\<forall>p\<in>set ps. (0::rat) \<le> p" and "i \<le> j"
  shows "sum_list (take i ps) \<le> sum_list (take j ps)"
proof -
  have "take j ps = take i ps @ take (j - i) (drop i ps)"
    using assms(2) by (metis le_add_diff_inverse take_add)
  moreover have "0 \<le> sum_list (take (j - i) (drop i ps))"
    using assms(1) by (intro sum_list_nonneg) (auto dest!: in_set_takeD in_set_dropD)
  ultimately show ?thesis by simp
qed

text \<open>
  C8. For a probability list with non-negative elements whose sum is within \<open>1e-6\<close> of
  1 (the normaliser's tolerance), the cumulative table is non-decreasing, is not empty,
  and its final element is within \<open>1e-4\<close> of 1.
\<close>

theorem C8_cum_probs_nondecreasing:
  assumes "\<forall>p\<in>set ps. 0 \<le> p" and "\<bar>sum_list ps - 1\<bar> \<le> 1 / 10 ^ 6"
  shows "sorted (build_cum_probs ps)
       \<and> build_cum_probs ps \<noteq> []
       \<and> \<bar>last (build_cum_probs ps) - 1\<bar> \<le> 1 / 10 ^ 4"
proof -
  have mono: "sorted (build_cum_probs ps)"
    unfolding sorted_iff_nth_mono
  proof (intro allI impI)
    fix i j assume "i \<le> j" "j < length (build_cum_probs ps)"
    then have "i < length ps" "j < length ps" by (simp_all add: length_build_cum_probs)
    moreover have "sum_list (take (Suc i) ps) \<le> sum_list (take (Suc j) ps)"
      using assms(1) \<open>i \<le> j\<close> by (intro sum_list_take_mono) auto
    ultimately show "build_cum_probs ps ! i \<le> build_cum_probs ps ! j"
      by (simp add: nth_build_cum_probs py_round_mono)
  qed
  from assms(2) have "ps \<noteq> []" by auto
  then have ne: "build_cum_probs ps \<noteq> []"
    using length_build_cum_probs [of ps] by auto
  have "last (build_cum_probs ps) = build_cum_probs ps ! (length ps - 1)"
    using ne by (simp add: last_conv_nth length_build_cum_probs)
  also have "\<dots> = py_round (sum_list ps) 4"
    using \<open>ps \<noteq> []\<close> by (simp add: nth_build_cum_probs)
  also have "\<dots> = 1" using assms(2) by (rule py_round_near_one)
  finally show ?thesis using mono ne by simp
qed

theorem C8_cum_probs_nondecreasing_witness:
  "list_all (\<lambda>p. 0 \<le> p) [1 / 100, 20 / 100, 15 / 100, 50 / 100, 12 / 100, 2 / 100 :: rat]
 \<and> \<bar>sum_list [1 / 100, 20 / 100, 15 / 100, 50 / 100, 12 / 100, 2 / 100 :: rat] - 1\<bar> \<le> 1 / 10 ^ 6
 \<and> sorted (build_cum_probs [1 / 100, 20 / 100, 15 / 100, 50 / 100, 12 / 100, 2 / 100])
 \<and> build_cum_probs [1 / 100, 20 / 100, 15 / 100, 50 / 100, 12 / 100, 2 / 100] \<noteq> []
 \<and> \<bar>last (build_cum_probs [1 / 100, 20 / 100, 15 / 100, 50 / 100, 12 / 100, 2 / 100]) - 1\<bar>
      \<le> 1 / 10 ^ 4"
proof -
  let ?ps = "[1 / 100, 20 / 100, 15 / 100, 50 / 100, 12 / 100, 2 / 100 :: rat]"
  have nonneg: "\<forall>p\<in>set ?ps. 0 \<le> p" by simp
  have total: "\<bar>sum_list ?ps - 1\<bar> \<le> 1 / 10 ^ 6" by simp
  from C8_cum_probs_nondecreasing [OF nonneg total] nonneg total show ?thesis
    by (simp only: list_all_iff simp_thms)
qed

subsection \<open>The script\<close>

lemma script_Inr:
  assumes "script a c m X0 n dv raw = Inr out"
  shows "messages out = fst (normalize_probabilities raw)"
    and "probabilities out = snd (normalize_probabilities raw)"
    and "cum_probs out = build_cum_probs (probabilities out)"
    and "generate_lcg X0 a c m n = Inr (X_values out)"
    and "comprehension (\<lambda>x. true_div x m) (X_values out) = Inr (U_values out)"
    and "comprehension (\<lambda>u. map_to_demand u dv (cum_probs out)) (U_values out) =
           Inr (demands_generated out)"
    and "statistics n (demands_generated out) = Inr (avg_6 out, avg_n out, day_5 out)"
  using assms by (auto simp: script_def split: prod.splits sum.splits)

lemma statistics_means:
  assumes "1 \<le> n" and "length ds = nat n"
  shows "statistics n ds =
           Inr (if 6 \<le> n then Some (arithmetic_mean (take (min 6 (nat n)) ds)) else None,
                arithmetic_mean ds,
                if 5 \<le> n then Some (ds ! 4) else None)"
proof -
  from assms have n: "n \<noteq> 0" "of_nat (length ds) = (of_int n :: rat)"
    by simp_all
  have six: "arithmetic_mean (take (min 6 (nat n)) ds) = of_int (py_sum (take 6 ds)) / 6"
    if "6 \<le> n"
  proof -
    from that have "min 6 (nat n) = 6" by simp
    moreover from that assms(2) have "length (take 6 ds) = 6" by simp
    ultimately show ?thesis by (simp add: arithmetic_mean_def py_sum_sum_list)
  qed
  have five: "4 < length ds" if "5 \<le> n" using that assms(2) by simp
  show ?thesis
    using n six five
    by (simp add: statistics_def true_div_def py_sum_sum_list arithmetic_mean_def Let_def)
qed

lemma script_returns:
  assumes "m \<noteq> 0" and "1 \<le> n" and "dv \<noteq> []" and "length raw = length dv"
  shows "\<exists>out. script a c m X0 n dv raw = Inr out"
proof -
  obtain msgs probs where norm: "normalize_probabilities raw = (msgs, probs)"
    by (cases "normalize_probabilities raw")
  have "length probs = length raw"
    using norm by (auto simp: normalize_probabilities_def Let_def split: if_splits)
  then have len: "length (build_cum_probs probs) \<le> length dv"
    using assms(4) by (simp add: length_build_cum_probs)
  obtain xs where gen: "generate_lcg X0 a c m n = Inr xs"
    using assms(1) by (simp add: generate_lcg_recurrence del: upt_Suc)
  have us: "comprehension (\<lambda>x. true_div x m) xs = Inr (map (\<lambda>x. of_int x / of_int m) xs)"
    using assms(1) by (intro comprehension_total) (simp add: true_div_def)
  have "\<exists>d. map_to_demand u dv (build_cum_probs probs) = Inr d" for u :: rat
    using map_to_demand_loop_total [OF assms(3), of 0 "build_cum_probs probs" u] len
    by (auto simp: map_to_demand_def)
  then obtain ds where ds: "comprehension (\<lambda>u. map_to_demand u dv (build_cum_probs probs))
      (map (\<lambda>x. of_int x / of_int m) xs) = Inr ds"
    using comprehension_returns [of "map (\<lambda>x. of_int x / of_int m) xs"
        "\<lambda>u. map_to_demand u dv (build_cum_probs probs)"]
    by blast
  have "length ds = nat n"
    using comprehension_length [OF ds] generate_lcg_length [OF gen] by simp
  from statistics_means [OF assms(2) this] norm gen us ds show ?thesis
    by (simp add: script_def)
qed



subsection \<open>The statistics of the run\<close>

text \<open>
  C9. From a run of \<open>n \<ge> 1\<close> demand values the statistics are: the arithmetic mean of
  the first \<open>min(6, n)\<close> values only when \<open>n \<ge> 6\<close>; the arithmetic mean of all \<open>n\<close>
  values, under no guard; the entry at index 4 only when \<open>n \<ge> 5\<close>. \<open>statistics\<close> is a
  function of the day count and the demand list that returns these three values only,
  and the script, which returns for every nonzero modulus, day count \<open>\<ge> 1\<close> and
  non-empty demand list as long as the probability list, keeps the run of \<open>n\<close>
  demands it computed them from.
\<close>

theorem C9_statistics_projections:
  "(1 \<le> n \<and> length ds = nat n \<longrightarrow>
      statistics n ds =
        Inr (if 6 \<le> n then Some (arithmetic_mean (take (min 6 (nat n)) ds)) else None,
             arithmetic_mean ds,
             if 5 \<le> n then Some (ds ! 4) else None))
 \<and> (m \<noteq> 0 \<and> 1 \<le> n \<and> dv \<noteq> [] \<and> length raw = length dv \<longrightarrow>
      (\<exists>out. script a c m X0 n dv raw = Inr out
         \<and> length (demands_generated out) = nat n
         \<and> statistics n (demands_generated out) = Inr (avg_6 out, avg_n out, day_5 out)))"
proof (intro conjI impI)
  assume "1 \<le> n \<and> length ds = nat n"
  then show "statistics n ds =
        Inr (if 6 \<le> n then Some (arithmetic_mean (take (min 6 (nat n)) ds)) else None,
             arithmetic_mean ds,
             if 5 \<le> n then Some (ds ! 4) else None)"
    by (simp add: statistics_means)
next
  assume valid: "m \<noteq> 0 \<and> 1 \<le> n \<and> dv \<noteq> [] \<and> length raw = length dv"
  then obtain out where out: "script a c m X0 n dv raw = Inr out"
    using script_returns [of m n dv raw a c X0] by blast
  have "length (U_values out) = length (X_values out)"
    using script_Inr(5) [OF out] by (rule comprehension_length)
  moreover have "length (demands_generated out) = length (U_values out)"
    using script_Inr(6) [OF out] by (rule comprehension_length)
  moreover have "length (X_values out) = nat n"
    using script_Inr(4) [OF out] by (rule generate_lcg_length)
  ultimately have "length (demands_generated out) = nat n" by simp
  with out script_Inr(7) [OF out]
  show "\<exists>out. script a c m X0 n dv raw = Inr out
         \<and> length (demands_generated out) = nat n
         \<and> statistics n (demands_generated out) = Inr (avg_6 out, avg_n out, day_5 out)"
    by blast
qed

theorem C9_statistics_projections_witness:
  "(1 :: int) \<le> 10 \<and> length [30, 10, 30, 40, 30, 30, 40, 30, 20, 40 :: int] = nat 10
 \<and> statistics 10 [30, 10, 30, 40, 30, 30, 40, 30, 20, 40] = Inr (Some (170 / 6), 300 / 10, Some 30)
 \<and> (1 :: int) \<le> 3 \<and> length [30, 10, 30 :: int] = nat 3
 \<and> statistics 3 [30, 10, 30] = Inr (None, 70 / 3, None)
 \<and> (100 :: int) \<noteq> 0 \<and> [0, 10, 20, 30, 40, 50 :: int] \<noteq> []
 \<and> length [1 / 100, 20 / 100, 15 / 100, 50 / 100, 12 / 100, 2 / 100 :: rat]
      = length [0, 10, 20, 30, 40, 50 :: int]
 \<and> (\<exists>out. script 13 7 100 35 10 [0, 10, 20, 30, 40, 50]
             [1 / 100, 20 / 100, 15 / 100, 50 / 100, 12 / 100, 2 / 100] = Inr out
        \<and> length (demands_generated out) = nat 10
        \<and> statistics 10 (demands_generated out) = Inr (avg_6 out, avg_n out, day_5 out))"
proof -
  let ?ds = "[30, 10, 30, 40, 30, 30, 40, 30, 20, 40 :: int]"
  let ?dv = "[0, 10, 20, 30, 40, 50 :: int]"
  let ?raw = "[1 / 100, 20 / 100, 15 / 100, 50 / 100, 12 / 100, 2 / 100 :: rat]"
  have six: "arithmetic_mean (take (min 6 (nat 10)) ?ds) = 170 / 6"
    and all: "arithmetic_mean ?ds = 300 / 10" and three: "arithmetic_mean [30, 10, 30] = 70 / 3"
    by (simp_all add: arithmetic_mean_def)
  from C9_statistics_projections [of 10 ?ds]
  have ten: "statistics 10 ?ds = Inr (Some (170 / 6), 300 / 10, Some 30)"
    unfolding six all by simp
  from C9_statistics_projections [of 3 "[30, 10, 30]"]
  have few: "statistics 3 [30, 10, 30] = Inr (None, 70 / 3, None)"
    unfolding three by simp
  from C9_statistics_projections [of 10 ?ds 100 ?dv ?raw 13 7 35]
  have "\<exists>out. script 13 7 100 35 10 ?dv ?raw = Inr out
        \<and> length (demands_generated out) = nat 10
        \<and> statistics 10 (demands_generated out) = Inr (avg_6 out, avg_n out, day_5 out)"
    by simp
  with ten few show ?thesis by simp
qed

subsection \<open>Probabilities that sum to zero\<close>

text \<open>
  C2 (the code at an input the claim is about). With the default generator parameters,
  three days, demands \<open>[0, 10]\<close> and probabilities \<open>[0, 0]\<close> the script shows the error
  message and then goes on: it builds the cumulative table \<open>[0, 0]\<close>, generates
  \<open>[62, 13, 76]\<close>, maps every uniform to the last demand and computes the statistics.
\<close>

theorem C2_zero_sum_run_goes_on:
  "script 13 7 100 35 3 [0, 10] [0, 0] =
     Inr \<lparr>messages = [Error_probabilities_all_zero], probabilities = [0, 0],
          cum_probs = [0, 0], X_values = [62, 13, 76],
          U_values = [62 / 100, 13 / 100, 76 / 100],
          demands_generated = [10, 10, 10], avg_6 = None, avg_n = 10,
          day_5 = None\<rparr>"
  by code_simp

end
